theory Spec2Isabelle
  imports Main "HOL-Library.Word"
begin

unbundle bit_operations_syntax

section \<open>Python values, exceptions and ctypes\<close>

text \<open>
  \<^verbatim>\<open>src/horusdemodlib/encoder.py\<close> is a ctypes binding: class \<open>Encoder\<close> loads the native
  library \<open>libhorus\<close> and hands byte buffers to three of its functions. The methods are
  dynamically typed (\<open>type(packet) != bytes\<close> is tested at run time), so arguments and
  results are values of \<open>pyval\<close>; an exception is the \<open>Inl\<close> of a sum.

  Integer widths are those of a 64-bit Linux or macOS host: a C \<open>int\<close> has 32 bits, a C
  \<open>long\<close> 64, and an array length is an index below \<open>2^63\<close>.
\<close>

type_synonym byte = "8 word"

datatype pyval =
    PyNone
  | PyBool bool
  | PyInt int
  | PyStr string
  | PyBytes "byte list"
  | PyByteArray "byte list"
  | PyList "pyval list"
  | PyTuple "pyval list"

datatype error =
    TypeError
  | ValueError
  | OverflowError
  | MemoryError
  | ArgumentError
  | AttributeError
  | OSError

text \<open>\<open>type(v) == bytes\<close>: true of a \<open>bytes\<close> object only (a \<open>bytearray\<close> is another type).\<close>

fun is_bytes :: "pyval \<Rightarrow> bool" where
  "is_bytes (PyBytes bs) = True"
| "is_bytes v = False"

text \<open>
  A Python integer passed to a native function that has no \<open>argtypes\<close> (the wrapper sets
  the attribute \<open>argtype\<close>, which ctypes does not read): ctypes takes an integer that
  fits a C \<open>long\<close> or \<open>unsigned long\<close> (64 bits) and hands its low 32 bits over as a C
  \<open>int\<close>; any other integer is refused with \<open>ArgumentError\<close>. A C \<open>int\<close> is a \<open>32 word\<close>;
  a result with \<open>restype = c_int\<close> is read back with \<open>sint\<close>.
\<close>

definition as_c_int :: "int \<Rightarrow> error + 32 word" where
  "as_c_int n =
     (if - (2 ^ 63) \<le> n \<and> n < 2 ^ 64 then Inr (word_of_int n) else Inl ArgumentError)"

text \<open>
  The three functions of \<open>libhorus\<close> the methods call, each as a function of the contents
  of its input buffer and the C \<open>int\<close> it is passed (the output arrays are handed over
  freshly zeroed):
  \<^item> \<open>horus_l2_get_num_tx_data_bytes(n)\<close> returns a C \<open>int\<close> (\<open>restype = c_int\<close>);
  \<^item> \<open>horus_l2_encode_tx_packet(out, in, n)\<close> stores bytes at \<open>out\<close> and returns a C \<open>int\<close>;
  \<^item> \<open>horus_l2_decode_rx_packet(out, in, n)\<close> stores bytes at \<open>out\<close>; the wrapper does not
    read what it returns.
  Their C source is not among the sources; the wrapper below is written against any such
  library.
\<close>

record native_lib =
  horus_l2_get_num_tx_data_bytes :: "32 word \<Rightarrow> 32 word"
  horus_l2_encode_tx_packet :: "byte list \<Rightarrow> 32 word \<Rightarrow> byte list \<times> 32 word"
  horus_l2_decode_rx_packet :: "byte list \<Rightarrow> 32 word \<Rightarrow> byte list"

text \<open>
  A loaded library: the symbols it has, and the code behind the three the methods call.
\<close>

record shared_library =
  symbols :: "string list"
  natives :: native_lib

text \<open>
  The interpreter and operating system services the class uses: \<open>sys.platform\<close>,
  \<open>os.path.join\<close>, \<open>ctypes.cdll.LoadLibrary\<close> (\<open>None\<close> when nothing loads from the path,
  which ctypes reports as \<open>OSError\<close>), and the memory: \<open>heap_bytes\<close> is the largest array
  the host grants.
\<close>

record host =
  sys_platform :: string
  os_path_join :: "string \<Rightarrow> string \<Rightarrow> string"
  LoadLibrary :: "string \<Rightarrow> shared_library option"
  heap_bytes :: nat

text \<open>
  Whether the host makes an array of \<open>n\<close> bytes. An array whose length fits a C \<open>int\<close>
  (below \<open>2^31\<close>) is taken to be granted on every host: the model does not follow the
  exhaustion of memory by objects of that size. A longer one needs \<open>heap_bytes\<close>.
\<close>

definition array_granted :: "host \<Rightarrow> int \<Rightarrow> bool" where
  "array_granted h n = (n < 2 ^ 31 \<or> n \<le> int (heap_bytes h))"

text \<open>
  \<open>(c_ubyte * n)()\<close>: a zero-filled array of \<open>n\<close> unsigned bytes. The array type
  \<open>c_ubyte * n\<close> is refused with \<open>ValueError\<close> for a negative length and with
  \<open>OverflowError\<close> for a length that is no index (\<open>2^63\<close> or more); making the array raises
  \<open>MemoryError\<close> when the host does not grant it. The length zero is an empty array.
\<close>

definition ctypes_array :: "host \<Rightarrow> int \<Rightarrow> error + byte list" where
  "ctypes_array h n =
     (if n < 0 then Inl ValueError
      else if 2 ^ 63 \<le> n then Inl OverflowError
      else if array_granted h n then Inr (replicate (nat n) 0)
      else Inl MemoryError)"

text \<open>
  A native function receives a pointer to the array and stores bytes from its start. The
  array keeps its length whatever is stored: \<open>bytes(array)\<close> is always as long as the array
  was made. What a store past the end would do to other memory is outside this model.
\<close>

definition stored_in :: "byte list \<Rightarrow> byte list \<Rightarrow> byte list" where
  "stored_in buf out = take (length buf) (out @ drop (length out) buf)"

section \<open>Class Encoder\<close>

record Encoder =
  c_lib :: native_lib

definition libhorus_path :: "host \<Rightarrow> string \<Rightarrow> string" where
  "libhorus_path h libpath =
     (if sys_platform h = ''darwin'' then os_path_join h libpath ''libhorus.dylib''
      else if sys_platform h = ''win32'' then os_path_join h libpath ''libhorus.dll''
      else os_path_join h libpath ''libhorus.so'')"

text \<open>
  The symbols \<open>__init__\<close> looks up in the loaded library, in the order of its statements
  (an attribute of \<open>self.c_lib\<close> that the library does not have raises
  \<open>AttributeError\<close>).
\<close>

definition looked_up :: "string list" where
  "looked_up =
     [''horus_l2_get_num_tx_data_bytes'', ''horus_l2_encode_tx_packet'',
      ''horus_l2_decode_rx_packet'', ''horus_l2_gen_crc16'', ''horus_l2_init'']"

text \<open>
  \<open>Encoder.__init__\<close>. The state threaded through is the number of times
  \<open>horus_l2_init()\<close> has run in the process so far, returned also when the constructor
  raises. The call is the constructor's last statement, after the library has loaded and
  every symbol has been found, with no test of whether it ran before. Setting the
  \<open>restype\<close> and \<open>argtype\<close> attributes does not change that count.
\<close>

definition Encoder_init :: "host \<Rightarrow> string \<Rightarrow> nat \<Rightarrow> (error + Encoder) \<times> nat" where
  "Encoder_init h libpath init_calls =
     (case LoadLibrary h (libhorus_path h libpath) of
        None \<Rightarrow> (Inl OSError, init_calls)
      | Some lib \<Rightarrow>
          if list_all (\<lambda>s. s \<in> set (symbols lib)) looked_up
          then (Inr \<lparr>c_lib = natives lib\<rparr>, Suc init_calls)
          else (Inl AttributeError, init_calls))"

text \<open>
  A client that constructs \<open>k\<close> encoders one after the other, as any caller may, and
  stops at the first exception: the exception, if any, and the count of
  \<open>horus_l2_init()\<close> calls then.
\<close>

fun construct_encoders :: "host \<Rightarrow> string \<Rightarrow> nat \<Rightarrow> nat \<Rightarrow> error option \<times> nat" where
  "construct_encoders h libpath 0 init_calls = (None, init_calls)"
| "construct_encoders h libpath (Suc k) init_calls =
     (case Encoder_init h libpath init_calls of
        (Inl e, init_calls') \<Rightarrow> (Some e, init_calls')
      | (Inr enc, init_calls') \<Rightarrow> construct_encoders h libpath k init_calls')"

text \<open>
  \<open>Encoder.get_num_tx_data_bytes\<close>: \<open>int(packet_size)\<close> goes to the native function as a
  C \<open>int\<close>, and its C \<open>int\<close> answer comes back as a Python integer.
\<close>

definition get_num_tx_data_bytes :: "Encoder \<Rightarrow> int \<Rightarrow> error + int" where
  "get_num_tx_data_bytes self packet_size =
     (case as_c_int packet_size of
        Inl e \<Rightarrow> Inl e
      | Inr n \<Rightarrow> Inr (sint (horus_l2_get_num_tx_data_bytes (c_lib self) n)))"

text \<open>
  \<open>Encoder.horus_l2_encode_packet\<close>: the type test, the output array sized by
  \<open>get_num_tx_data_bytes(len(packet))\<close>, the native call, and the result
  \<open>(bytes(_encoded), _num_bytes)\<close>, a pair. (The copy of the packet into \<open>_unencoded\<close>
  is as long as the packet, which is in memory already, and is taken to succeed.)
\<close>

definition horus_l2_encode_packet :: "host \<Rightarrow> Encoder \<Rightarrow> pyval \<Rightarrow> error + pyval" where
  "horus_l2_encode_packet h self packet =
     (case packet of
        PyBytes unencoded \<Rightarrow>
          (case get_num_tx_data_bytes self (int (length unencoded)) of
             Inl e \<Rightarrow> Inl e
           | Inr num_encoded_bytes \<Rightarrow>
               (case ctypes_array h num_encoded_bytes of
                  Inl e \<Rightarrow> Inl e
                | Inr encoded \<Rightarrow>
                    (case as_c_int (int (length unencoded)) of
                       Inl e \<Rightarrow> Inl e
                     | Inr n \<Rightarrow>
                         (let (out, num_bytes) =
                                horus_l2_encode_tx_packet (c_lib self) unencoded n
                          in Inr (PyTuple [PyBytes (stored_in encoded out),
                                           PyInt (sint num_bytes)])))))
      | _ \<Rightarrow> Inl TypeError)"

text \<open>
  \<open>Encoder.horus_l2_decode_packet\<close>: the type test, the output array of
  \<open>num_payload_bytes\<close> bytes, the native call (whose return value is dropped), and the
  result \<open>bytes(_decoded)\<close>. (The copy of the packet into \<open>_encoded\<close> is taken to succeed,
  as above.)
\<close>

definition horus_l2_decode_packet :: "host \<Rightarrow> Encoder \<Rightarrow> pyval \<Rightarrow> int \<Rightarrow> error + pyval" where
  "horus_l2_decode_packet h self packet num_payload_bytes =
     (case packet of
        PyBytes encoded \<Rightarrow>
          (case ctypes_array h num_payload_bytes of
             Inl e \<Rightarrow> Inl e
           | Inr decoded \<Rightarrow>
               (case as_c_int num_payload_bytes of
                  Inl e \<Rightarrow> Inl e
                | Inr n \<Rightarrow>
                    (let out = horus_l2_decode_rx_packet (c_lib self) encoded n
                     in Inr (PyBytes (stored_in decoded out)))))
      | _ \<Rightarrow> Inl TypeError)"

section \<open>The native codec, from the specification\<close>

text \<open>
  The C source of \<open>libhorus\<close> (the checksum, the Golay code, the interleaver, the
  scrambler and the framer) is not among the sources. The definitions of this section
  follow the specification's sections 3, 4 and 6 instead. Where the specification names
  a mechanism and leaves its constants open (its section 9 says so), the constant chosen
  is named in the definition's comment.
\<close>

subsection \<open>Bytes and bits\<close>

text \<open>
  Modelled from the spec: the unique word of the missing framer, "a fixed 2-byte unique
  word (conceptually 0x24 0x24)".
\<close>

definition unique_word :: "byte list" where
  "unique_word = [0x24, 0x24]"

text \<open>
  Modelled from the spec: the missing codec works on the bits of byte buffers
  ("byte-packed"); a byte's bits, most significant first.
\<close>

definition byte_bits :: "byte \<Rightarrow> bool list" where
  "byte_bits b = rev (map (bit b) [0..<8])"

text \<open>Modelled from the spec: the missing byte packing, the byte of up to 8 bits.\<close>

definition bits_byte :: "bool list \<Rightarrow> byte" where
  "bits_byte bs = horner_sum of_bool 2 (rev bs)"

text \<open>Modelled from the spec: the bit sequence of a byte buffer of the missing codec.\<close>

definition bytes_to_bits :: "byte list \<Rightarrow> bool list" where
  "bytes_to_bits bs = concat (map byte_bits bs)"

text \<open>
  Modelled from the spec: the missing splitter, "split into 12-bit chunks": consecutive
  groups of \<open>k\<close> elements, the last one shorter when the length is no multiple of \<open>k\<close>.
\<close>

fun chunks :: "nat \<Rightarrow> 'a list \<Rightarrow> 'a list list" where
  "chunks k xs = (if k = 0 \<or> xs = [] then [] else take k xs # chunks k (drop k xs))"

declare chunks.simps [simp del]

text \<open>Modelled from the spec: the missing padding, "zero-padded on the final chunk if needed".\<close>

definition zero_pad :: "nat \<Rightarrow> bool list \<Rightarrow> bool list" where
  "zero_pad k g = g @ replicate (k - length g) False"

text \<open>
  Modelled from the spec: the missing packing of a bit sequence into bytes, "rounded up
  to a whole byte count" (frame length = 2 + ceil(encoded_bit_count / 8)).
\<close>

definition bits_to_bytes :: "bool list \<Rightarrow> byte list" where
  "bits_to_bytes bits = map (\<lambda>g. bits_byte (zero_pad 8 g)) (chunks 8 bits)"

subsection \<open>CRC generator\<close>

text \<open>
  Modelled from the spec: one bit step of the missing \<open>crc16\<close>, "a CRC-16 (CCITT/XMODEM-class
  polynomial)": the polynomial is 0x1021.
\<close>

definition crc16_shift :: "16 word \<Rightarrow> 16 word" where
  "crc16_shift c = (if bit c 15 then push_bit 1 c XOR 0x1021 else push_bit 1 c)"

text \<open>Modelled from the spec: one byte step of the missing \<open>crc16\<close>.\<close>

definition crc16_update :: "16 word \<Rightarrow> byte \<Rightarrow> 16 word" where
  "crc16_update c b = (crc16_shift ^^ 8) (c XOR push_bit 8 (ucast b))"

text \<open>
  Modelled from the spec: the missing \<open>crc16(bytes) -> u16\<close>, a pure function of the
  payload bytes. The specification does not give the initial value; 0xFFFF is taken.
\<close>

definition crc16 :: "byte list \<Rightarrow> 16 word" where
  "crc16 bs = foldl crc16_update 0xFFFF bs"

text \<open>
  Modelled from the spec: the two bytes the missing encoder appends ("computes checksum,
  appends it"). The specification does not give their order; high byte first is taken.
\<close>

definition checksum_bytes :: "16 word \<Rightarrow> byte list" where
  "checksum_bytes c = [ucast (drop_bit 8 c), ucast c]"

subsection \<open>Block FEC codec (23,12)\<close>

text \<open>Modelled from the spec: bitwise XOR of two bit sequences, used by the missing codec.\<close>

definition xor_bits :: "bool list \<Rightarrow> bool list \<Rightarrow> bool list" where
  "xor_bits xs ys = map2 (\<noteq>) xs ys"

text \<open>
  Modelled from the spec: the missing "fixed generator matrix" of the Golay (23,12) code,
  as the generator polynomial 0xC75 of the standard code (its coefficients below the
  leading one).
\<close>

definition golay_generator :: "bool list" where
  "golay_generator = [True, False, False, False, True, True, True, False, True, False, True]"

text \<open>
  Modelled from the spec: one step of the missing parity computation, the division by the
  generator polynomial with an 11-bit remainder register.
\<close>

definition golay_shift :: "bool list \<Rightarrow> bool \<Rightarrow> bool list" where
  "golay_shift r b =
     (if hd r \<noteq> b then xor_bits (tl r @ [False]) golay_generator else tl r @ [False])"

text \<open>Modelled from the spec: the 11 parity bits of 12 data bits ("11 bits of parity").\<close>

definition golay_parity :: "bool list \<Rightarrow> bool list" where
  "golay_parity d = foldl golay_shift (replicate 11 False) d"

text \<open>
  Modelled from the spec: the missing \<open>fec_encode(data12bits) -> codeword23bits\<close>, "12 bits
  of data + 11 bits of parity = 23 bits total".
\<close>

definition fec_encode :: "bool list \<Rightarrow> bool list" where
  "fec_encode d = d @ golay_parity d"

text \<open>Modelled from the spec: the syndrome of a received codeword, for the missing decoder.\<close>

definition syndrome :: "bool list \<Rightarrow> bool list" where
  "syndrome cw = xor_bits (golay_parity (take 12 cw)) (drop 12 cw)"

text \<open>Modelled from the spec: the 23-bit error pattern with bit errors at the positions \<open>ps\<close>.\<close>

definition error_pattern :: "nat list \<Rightarrow> bool list" where
  "error_pattern ps = map (\<lambda>i. i \<in> set ps) [0..<23]"

text \<open>
  Modelled from the spec: the error patterns the missing decoder corrects, "up to 3 bit
  errors per codeword": none, then every one, two and three positions.
\<close>

definition error_patterns :: "bool list list" where
  "error_patterns =
     error_pattern [] #
     [error_pattern [i]. i \<leftarrow> [0..<23]] @
     [error_pattern [i, j]. i \<leftarrow> [0..<23], j \<leftarrow> [Suc i..<23]] @
     [error_pattern [i, j, k]. i \<leftarrow> [0..<23], j \<leftarrow> [Suc i..<23], k \<leftarrow> [Suc j..<23]]"

text \<open>Modelled from the spec: the missing decoder's syndrome table ("syndrome-table lookup").\<close>

definition syndrome_table :: "(bool list \<times> bool list) list" where
  "syndrome_table = map (\<lambda>e. (syndrome e, e)) error_patterns"

text \<open>
  Modelled from the spec: the missing \<open>fec_decode(codeword23bits) -> (data12bits,
  error_count)\<close> with \<open>error_count\<close> in 0, 1, 2, 3 or "uncorrectable" (\<open>None\<close>).
\<close>

definition fec_decode :: "bool list \<Rightarrow> bool list \<times> nat option" where
  "fec_decode cw =
     (case map_of syndrome_table (syndrome cw) of
        None \<Rightarrow> (take 12 cw, None)
      | Some e \<Rightarrow> (take 12 (xor_bits cw e), Some (length (filter id e))))"

subsection \<open>Interleaver and scrambler\<close>

text \<open>
  Modelled from the spec: the missing \<open>interleave\<close>, "a fixed, length-parameterized
  permutation that spreads bits belonging to the same codeword across the transmitted
  block". The specification does not give the permutation; the block interleaver over
  \<open>k\<close> codewords is taken (bit \<open>c\<close> of codeword \<open>w\<close> is sent at position \<open>c * k + w\<close>).
\<close>

definition interleave :: "nat \<Rightarrow> bool list \<Rightarrow> bool list" where
  "interleave k bits = map (\<lambda>m. bits ! ((m mod k) * 23 + m div k)) [0..<23 * k]"

text \<open>Modelled from the spec: the inverse of the missing \<open>interleave\<close>.\<close>

definition deinterleave :: "nat \<Rightarrow> bool list \<Rightarrow> bool list" where
  "deinterleave k bits = map (\<lambda>i. bits ! ((i mod 23) * k + i div 23)) [0..<23 * k]"

text \<open>
  Modelled from the spec: the missing scrambling mask, "a deterministic pseudorandom
  sequence seeded by a fixed constant". The specification gives neither the generator
  nor the seed; a 15-bit shift register with feedback from its two lowest bits is taken.
\<close>

fun scramble_mask :: "nat \<Rightarrow> 16 word \<Rightarrow> bool list" where
  "scramble_mask 0 s = []"
| "scramble_mask (Suc n) s =
     (bit s 1 \<noteq> bit s 0) #
     scramble_mask n (drop_bit 1 s OR (if bit s 1 \<noteq> bit s 0 then 0x4000 else 0))"

text \<open>
  Modelled from the spec: the missing \<open>scramble\<close>, "XOR with a deterministic pseudorandom
  sequence"; the seed taken is 0x4A80. Descrambling is the same function.
\<close>

definition scramble :: "bool list \<Rightarrow> bool list" where
  "scramble bits = xor_bits bits (scramble_mask (length bits) 0x4A80)"

subsection \<open>Framer and packet codec\<close>

text \<open>
  Modelled from the spec: the number of codewords of the missing encoder for a payload of
  \<open>n\<close> bytes, \<open>ceil((payload_len*8 + checksum_bits) / 12)\<close> with 16 checksum bits.
\<close>

definition num_codewords :: "nat \<Rightarrow> nat" where
  "num_codewords n = (8 * n + 16 + 11) div 12"

text \<open>
  Modelled from the spec: the missing \<open>horus_l2_get_num_tx_data_bytes\<close>, the specification's
  \<open>transmit_size\<close>: \<open>ceil((payload_len*8 + checksum_bits) / 12) * 23\<close> bits, rounded up to
  whole bytes, after the 2 bytes of the unique word.
\<close>

definition transmit_size :: "int \<Rightarrow> int" where
  "transmit_size n = 2 + (((8 * n + 16 + 11) div 12) * 23 + 7) div 8"

text \<open>
  Modelled from the spec: the missing \<open>horus_l2_encode_tx_packet\<close>, the specification's
  \<open>encode\<close>: "computes checksum, appends it, splits into 12-bit groups, FEC-encodes each,
  interleaves/scrambles the full block, frames it". It reads \<open>n\<close> payload bytes from its
  input (a byte the buffer does not hold reads as 0).
\<close>

definition l2_encode :: "byte list \<Rightarrow> nat \<Rightarrow> byte list" where
  "l2_encode inp n =
     (let payload = take n (inp @ replicate n 0);
          dat = payload @ checksum_bytes (crc16 payload);
          groups = map (zero_pad 12) (chunks 12 (bytes_to_bits dat));
          block = concat (map fec_encode groups)
      in unique_word @ bits_to_bytes (scramble (interleave (length groups) block)))"

text \<open>
  Modelled from the spec: the status of the missing decoder, the specification's "Decode
  Status": whether the unique word was found, whether the checksum matched, and for each
  codeword the number of corrected bits (\<open>None\<close> for an uncorrectable one).
\<close>

record decode_status =
  synced :: bool
  checksum_ok :: bool
  error_counts :: "nat option list"

text \<open>
  Modelled from the spec: the missing \<open>deframe(bytes) -> (Synced|NotSynced,
  payload_region)\<close>, which "checks that the first 2 bytes equal the unique word" and does
  not raise.
\<close>

definition deframe :: "byte list \<Rightarrow> bool \<times> byte list" where
  "deframe frame = (take 2 frame = unique_word, drop 2 frame)"

text \<open>
  Modelled from the spec: the missing decoder, the specification's \<open>decode\<close>: "de-frame,
  de-interleave/descramble, FEC-decode, CRC-check", descrambling before de-interleaving,
  with the payload and the status. A bit the frame does not hold reads as 0.
\<close>

definition l2_decode :: "byte list \<Rightarrow> nat \<Rightarrow> byte list \<times> decode_status" where
  "l2_decode frame n =
     (let (sync, region) = deframe frame;
          k = num_codewords n;
          bits = take (23 * k) (bytes_to_bits region @ replicate (23 * k) False);
          decoded = map fec_decode (chunks 23 (deinterleave k (scramble bits)));
          dat = bits_to_bytes (take (8 * (n + 2)) (concat (map fst decoded)));
          payload = take n dat
      in (payload,
          \<lparr>synced = sync,
           checksum_ok = (drop n dat = checksum_bytes (crc16 payload)),
           error_counts = map snd decoded\<rparr>))"

text \<open>
  Modelled from the spec: the missing library \<open>libhorus\<close> as a whole, on C \<open>int\<close>
  arguments and results. Its encoder returns the number of bytes of the frame, which the
  wrapper calls \<open>_num_bytes\<close>; its decoder stores the payload at the output pointer, and
  its status stays in the library.
\<close>

definition horus_lib :: native_lib where
  "horus_lib =
     \<lparr>horus_l2_get_num_tx_data_bytes = (\<lambda>n. word_of_int (transmit_size (sint n))),
      horus_l2_encode_tx_packet =
        (\<lambda>inp n. (l2_encode inp (nat (sint n)), word_of_int (transmit_size (sint n)))),
      horus_l2_decode_rx_packet = (\<lambda>inp n. fst (l2_decode inp (nat (sint n))))\<rparr>"

text \<open>An \<open>Encoder\<close> object whose library is the one above.\<close>

definition horus_encoder :: Encoder where
  "horus_encoder = \<lparr>c_lib = horus_lib\<rparr>"

section \<open>The self-test data and what a caller can read from a result\<close>

text \<open>The two packets of the module's self-test (\<open>__main__\<close>), as bytes.\<close>

definition horus_v1_unencoded :: "byte list" where
  "horus_v1_unencoded =
     [0x00, 0x09, 0x00, 0x07, 0x1E, 0x2A, 0x00, 0x00, 0x00, 0x00, 0x00,
      0x00, 0x00, 0x00, 0x00, 0x00, 0x00, 0x00, 0x25, 0x9A, 0x6B, 0x14]"

definition horus_v1_encoded :: "byte list" where
  "horus_v1_encoded =
     [0x24, 0x24, 0xC0, 0x6B, 0x30, 0x0D, 0x04, 0x15, 0xC5, 0xDB, 0xD3, 0x32, 0xEF, 0xD7, 0xC1,
      0x90, 0xD7, 0xAF, 0x7F, 0x3C, 0x28, 0x91, 0xDE, 0x9F, 0x4B, 0xA1, 0xEB, 0x2B, 0x43, 0x7B,
      0xE1, 0xE2, 0xD8, 0x41, 0x9D, 0x3D, 0xC9, 0xE4, 0x4F, 0xDF, 0x78, 0xDA, 0xA0, 0x7A, 0x98]"

text \<open>
  The specification's \<open>decode\<close> returns \<open>(payload, checksum_ok, error_counts)\<close>. This is how
  a caller reads the two status components out of what a method returned: \<open>None\<close> when the
  method raised or returned a value that is no such triple.
\<close>

fun reported_status :: "error + pyval \<Rightarrow> (bool \<times> pyval list) option" where
  "reported_status (Inr (PyTuple [PyBytes payload, PyBool ok, PyList counts])) = Some (ok, counts)"
| "reported_status r = None"

text \<open>Whether a call returned a single \<open>bytes\<close> object.\<close>

fun returns_bytes :: "error + pyval \<Rightarrow> bool" where
  "returns_bytes (Inr (PyBytes bs)) = True"
| "returns_bytes r = False"

text \<open>
  \<open>posixpath.join\<close> on two components, and a Linux host with no memory beyond what every
  host has, on which the name \<open>libhorus.so\<close> loads a library with the symbols \<open>syms\<close> and
  the functions \<open>lib\<close>, and no other name loads.
\<close>

definition posix_join :: "string \<Rightarrow> string \<Rightarrow> string" where
  "posix_join a b =
     (if b \<noteq> [] \<and> hd b = CHR ''/'' then b
      else if a = [] \<or> last a = CHR ''/'' then a @ b
      else a @ ''/'' @ b)"

definition linux_host :: "string list \<Rightarrow> native_lib \<Rightarrow> host" where
  "linux_host syms lib =
     \<lparr>sys_platform = ''linux'', os_path_join = posix_join,
      LoadLibrary =
        (\<lambda>path. if path = ''libhorus.so'' then Some \<lparr>symbols = syms, natives = lib\<rparr> else None),
      heap_bytes = 0\<rparr>"

section \<open>The methods on a bytes argument\<close>

text \<open>
  C integers within range are read back unchanged, and the two methods on a \<open>bytes\<close>
  argument, by the outcome of the array: these equations are the wrapper as the claims
  below use it, for any host and any native library.
\<close>

lemma sint_word_of_int_32:
  "- (2 ^ 31) \<le> x \<Longrightarrow> x < 2 ^ 31 \<Longrightarrow> sint (word_of_int x :: 32 word) = x"
  by (simp add: sint_sbintrunc' signed_take_bit_int_eq_self)

lemma sint_32_bounds: "- (2 ^ 31) \<le> sint (w :: 32 word)" "sint (w :: 32 word) < 2 ^ 31"
  using sint_ge [of w] sint_lt [of w] by simp_all

lemma as_c_int_in_range:
  "- (2 ^ 63) \<le> n \<Longrightarrow> n < 2 ^ 64 \<Longrightarrow> as_c_int n = Inr (word_of_int n)"
  by (simp add: as_c_int_def)

lemma as_c_int_Inr: "as_c_int n = Inr w \<Longrightarrow> w = word_of_int n"
  by (simp add: as_c_int_def split: if_splits)

lemma get_num_tx_data_bytes_Inr:
  "get_num_tx_data_bytes self n = Inr tx_size \<Longrightarrow>
     as_c_int n = Inr (word_of_int n) \<and>
     tx_size = sint (horus_l2_get_num_tx_data_bytes (c_lib self) (word_of_int n)) \<and>
     tx_size < 2 ^ 31"
  using sint_32_bounds(2) [of "horus_l2_get_num_tx_data_bytes (c_lib self) (word_of_int n)"]
  by (auto simp add: get_num_tx_data_bytes_def as_c_int_def split: if_splits)

lemma length_stored_in: "length (stored_in buf out) = length buf"
  by (simp add: stored_in_def)

lemma stored_in_exact: "length out = length buf \<Longrightarrow> stored_in buf out = out"
  by (simp add: stored_in_def)

lemma array_granted_small: "n < 2 ^ 31 \<Longrightarrow> array_granted h n"
  by (simp add: array_granted_def)

lemma decode_packet_bytes:
  "0 \<le> n \<Longrightarrow> n < 2 ^ 63 \<Longrightarrow> array_granted h n \<Longrightarrow>
     horus_l2_decode_packet h self (PyBytes packet) n =
       Inr (PyBytes (stored_in (replicate (nat n) 0)
                       (horus_l2_decode_rx_packet (c_lib self) packet (word_of_int n))))"
  by (simp add: horus_l2_decode_packet_def ctypes_array_def as_c_int_def)

lemma decode_packet_small:
  "0 \<le> n \<Longrightarrow> n < 2 ^ 31 \<Longrightarrow>
     horus_l2_decode_packet h self (PyBytes packet) n =
       Inr (PyBytes (stored_in (replicate (nat n) 0)
                       (horus_l2_decode_rx_packet (c_lib self) packet (word_of_int n))))"
  by (rule decode_packet_bytes) (simp_all add: array_granted_small)


lemma decode_packet_overflow:
  "2 ^ 63 \<le> n \<Longrightarrow> horus_l2_decode_packet h self (PyBytes packet) n = Inl OverflowError"
  by (simp add: horus_l2_decode_packet_def ctypes_array_def)

lemma decode_packet_memory:
  "0 \<le> n \<Longrightarrow> n < 2 ^ 63 \<Longrightarrow> \<not> array_granted h n \<Longrightarrow>
     horus_l2_decode_packet h self (PyBytes packet) n = Inl MemoryError"
  by (simp add: horus_l2_decode_packet_def ctypes_array_def)

lemma encode_packet_bytes:
  assumes "get_num_tx_data_bytes self (int (length packet)) = Inr tx_size" and "0 \<le> tx_size"
  shows "horus_l2_encode_packet h self (PyBytes packet) =
       Inr (PyTuple
         [PyBytes (stored_in (replicate (nat tx_size) 0)
                     (fst (horus_l2_encode_tx_packet (c_lib self) packet
                             (word_of_int (int (length packet)))))),
          PyInt (sint (snd (horus_l2_encode_tx_packet (c_lib self) packet
                             (word_of_int (int (length packet))))))])"
proof -
  from get_num_tx_data_bytes_Inr [OF assms(1)]
  have c: "as_c_int (int (length packet)) = Inr (word_of_int (int (length packet)))"
    and s: "tx_size < 2 ^ 31" by simp_all
  from s have "tx_size < 2 ^ 63" by simp
  with assms s c show ?thesis
    by (simp add: horus_l2_encode_packet_def ctypes_array_def array_granted_small
        split: prod.split)
qed

lemma encode_packet_negative:
  "get_num_tx_data_bytes self (int (length packet)) = Inr tx_size \<Longrightarrow> tx_size < 0 \<Longrightarrow>
     horus_l2_encode_packet h self (PyBytes packet) = Inl ValueError"
  by (simp add: horus_l2_encode_packet_def ctypes_array_def)

lemma encode_packet_refused:
  "get_num_tx_data_bytes self (int (length packet)) = Inl e \<Longrightarrow>
     horus_l2_encode_packet h self (PyBytes packet) = Inl e"
  by (simp add: horus_l2_encode_packet_def)

section \<open>Bits, groups and bytes\<close>

text \<open>Packing bits into bytes and unpacking them again, and splitting into groups.\<close>

lemma length_byte_bits: "length (byte_bits b) = 8"
  by (simp add: byte_bits_def)

lemma bits_byte_byte_bits: "bits_byte (byte_bits b) = b"
proof -
  have "bits_byte (byte_bits b) = take_bit 8 b"
    by (simp only: bits_byte_def byte_bits_def rev_rev_ident horner_sum_bit_eq_take_bit)
  then show ?thesis by (simp add: take_bit_word_eq_self)
qed

lemma byte_bits_bits_byte:
  assumes "length g = 8"
  shows "byte_bits (bits_byte g) = g"
proof -
  have "map (bit (horner_sum of_bool (2 :: byte) (rev g))) [0..<8] = rev g"
    using assms by (intro nth_equalityI) (simp_all add: bit_horner_sum_bit_word_iff)
  then show ?thesis by (simp add: byte_bits_def bits_byte_def)
qed

lemma chunks_Nil: "chunks k [] = []"
  by (simp add: chunks.simps)

lemma chunks_step: "0 < k \<Longrightarrow> xs \<noteq> [] \<Longrightarrow> chunks k xs = take k xs # chunks k (drop k xs)"
  by (subst chunks.simps) simp

lemma chunks_append_row:
  "0 < k \<Longrightarrow> length r = k \<Longrightarrow> chunks k (r @ xs) = r # chunks k xs"
  by (subst chunks.simps) auto

lemma chunks_concat_rows:
  "0 < k \<Longrightarrow> \<forall>r \<in> set rows. length r = k \<Longrightarrow> chunks k (concat rows) = rows"
  by (induction rows) (simp_all add: chunks_Nil chunks_append_row)

lemma length_chunks: "0 < k \<Longrightarrow> length (chunks k xs) = (length xs + k - 1) div k"
proof (induction k xs rule: chunks.induct)
  case (1 k xs)
  show ?case
  proof (cases "xs = []")
    case True
    with 1 show ?thesis by (simp add: chunks_Nil)
  next
    case False
    with 1 have ih: "length (chunks k (drop k xs)) = (length xs - k + k - 1) div k"
      by simp
    show ?thesis
    proof (cases "k \<le> length xs")
      case True
      with 1(2) have "length xs + k - 1 = (length xs - k + k - 1) + k" by simp
      then have "(length xs + k - 1) div k = Suc ((length xs - k + k - 1) div k)"
        using 1(2) by (simp only: div_add_self2)
      with ih False 1(2) show ?thesis by (simp add: chunks_step)
    next
      case False
      with \<open>xs \<noteq> []\<close> obtain n where n: "length xs = Suc n" "n < k"
        by (cases xs) auto
      then have "(length xs + k - 1) div k = (n + k) div k" by simp
      also have "\<dots> = 1" using n by (simp only: div_add_self2) simp
      finally have "(length xs + k - 1) div k = 1" .
      with ih \<open>xs \<noteq> []\<close> 1(2) n show ?thesis by (simp add: chunks_step)
    qed
  qed
qed

lemma length_chunk_le: "g \<in> set (chunks k xs) \<Longrightarrow> length g \<le> k"
proof (induction k xs rule: chunks.induct)
  case (1 k xs)
  show ?case
  proof (cases "k = 0 \<or> xs = []")
    case True
    with 1(2) show ?thesis by (simp add: chunks.simps)
  next
    case False
    with 1(2) have "g = take k xs \<or> g \<in> set (chunks k (drop k xs))"
      by (simp add: chunks_step)
    with 1(1) False show ?thesis by auto
  qed
qed

lemma length_zero_pad: "length g \<le> k \<Longrightarrow> length (zero_pad k g) = k"
  by (simp add: zero_pad_def)

lemma zero_pad_full: "length g = k \<Longrightarrow> zero_pad k g = g"
  by (simp add: zero_pad_def)

lemma length_padded_chunk: "g \<in> set (map (zero_pad k) (chunks k xs)) \<Longrightarrow> length g = k"
  by (auto simp add: length_zero_pad length_chunk_le)

lemma length_concat_uniform:
  "\<forall>r \<in> set rows. length r = k \<Longrightarrow> length (concat rows) = k * length rows"
  by (induction rows) simp_all

lemma padded_chunks_prefix:
  "0 < k \<Longrightarrow> \<exists>z. concat (map (zero_pad k) (chunks k xs)) = xs @ replicate z False"
proof (induction k xs rule: chunks.induct)
  case (1 k xs)
  show ?case
  proof (cases "xs = []")
    case True
    then show ?thesis by (simp add: chunks_Nil)
  next
    case False
    with 1 obtain z where z: "concat (map (zero_pad k) (chunks k (drop k xs))) = drop k xs @ replicate z False"
      by auto
    show ?thesis
    proof (cases "k \<le> length xs")
      case True
      then have "zero_pad k (take k xs) = take k xs" by (simp add: zero_pad_def)
      with z False 1(2) have "concat (map (zero_pad k) (chunks k xs)) = xs @ replicate z False"
        by (simp add: chunks_step)
      then show ?thesis ..
    next
      case False
      then have "take k xs = xs" "drop k xs = []" by simp_all
      with \<open>xs \<noteq> []\<close> 1(2) have "concat (map (zero_pad k) (chunks k xs)) = xs @ replicate (k - length xs) False"
        by (simp add: chunks_step chunks_Nil zero_pad_def)
      then show ?thesis ..
    qed
  qed
qed

lemma padded_chunks:
  assumes "0 < k"
  shows "concat (map (zero_pad k) (chunks k xs)) =
           xs @ replicate (k * length (chunks k xs) - length xs) False"
proof -
  from padded_chunks_prefix [OF assms] obtain z
    where z: "concat (map (zero_pad k) (chunks k xs)) = xs @ replicate z False" by blast
  have "length (concat (map (zero_pad k) (chunks k xs))) = k * length (map (zero_pad k) (chunks k xs))"
    by (rule length_concat_uniform) (simp add: length_zero_pad length_chunk_le)
  with z have "length xs + z = k * length (chunks k xs)" by simp
  then have "z = k * length (chunks k xs) - length xs" by simp
  with z show ?thesis by simp
qed

lemma take_padded_chunks:
  "0 < k \<Longrightarrow> take (length xs) (concat (map (zero_pad k) (chunks k xs))) = xs"
  by (simp add: padded_chunks)

lemma length_bytes_to_bits: "length (bytes_to_bits bs) = 8 * length bs"
  unfolding bytes_to_bits_def
  by (rule length_concat_uniform [where rows = "map byte_bits bs", simplified length_map]) (auto simp add: length_byte_bits)

lemma length_bits_to_bytes: "length (bits_to_bytes xs) = (length xs + 7) div 8"
  by (simp add: bits_to_bytes_def length_chunks)

lemma bytes_to_bits_bits_to_bytes:
  "bytes_to_bits (bits_to_bytes xs) = concat (map (zero_pad 8) (chunks 8 xs))"
proof -
  have "map byte_bits (bits_to_bytes xs) = map (zero_pad 8) (chunks 8 xs)"
    unfolding bits_to_bytes_def map_map
    by (rule map_cong) (simp_all add: byte_bits_bits_byte length_zero_pad length_chunk_le)
  then show ?thesis by (simp add: bytes_to_bits_def)
qed

lemma bits_to_bytes_bytes_to_bits: "bits_to_bytes (bytes_to_bits bs) = bs"
proof -
  have "chunks 8 (bytes_to_bits bs) = map byte_bits bs"
    unfolding bytes_to_bits_def
    by (rule chunks_concat_rows) (auto simp add: length_byte_bits)
  then have "bits_to_bytes (bytes_to_bits bs) = map (\<lambda>b. bits_byte (zero_pad 8 (byte_bits b))) bs"
    by (simp add: bits_to_bytes_def comp_def)
  also have "\<dots> = map (\<lambda>b. b) bs"
    by (rule map_cong) (simp_all add: zero_pad_full length_byte_bits bits_byte_byte_bits)
  finally show ?thesis by simp
qed

section \<open>The codeword, the interleaver and the scrambler are inverted\<close>

lemma length_xor_bits: "length (xor_bits xs ys) = min (length xs) (length ys)"
  by (simp add: xor_bits_def)

lemma xor_bits_self: "xor_bits xs xs = replicate (length xs) False"
  by (induction xs) (simp_all add: xor_bits_def)

lemma xor_bits_zeros: "length xs \<le> n \<Longrightarrow> xor_bits xs (replicate n False) = xs"
proof (induction xs arbitrary: n)
  case Nil
  then show ?case by (simp add: xor_bits_def)
next
  case (Cons x xs)
  then obtain n' where "n = Suc n'" by (cases n) auto
  with Cons show ?case by (simp add: xor_bits_def)
qed

lemma xor_bits_twice: "length xs \<le> length m \<Longrightarrow> xor_bits (xor_bits xs m) m = xs"
proof (induction xs arbitrary: m)
  case Nil
  then show ?case by (simp add: xor_bits_def)
next
  case (Cons x xs)
  then obtain y ys where "m = y # ys" by (cases m) auto
  with Cons show ?case by (auto simp add: xor_bits_def)
qed

lemma length_golay_shift: "length r = 11 \<Longrightarrow> length (golay_shift r b) = 11"
  by (cases r) (simp_all add: golay_shift_def golay_generator_def length_xor_bits)

lemma length_foldl_golay_shift: "length r = 11 \<Longrightarrow> length (foldl golay_shift r d) = 11"
  by (induction d arbitrary: r) (simp_all add: length_golay_shift)

lemma length_golay_parity: "length (golay_parity d) = 11"
  by (simp add: golay_parity_def length_foldl_golay_shift)

lemma length_fec_encode: "length g = 12 \<Longrightarrow> length (fec_encode g) = 23"
  by (simp add: fec_encode_def length_golay_parity)

lemma golay_shift_zero: "golay_shift (replicate 11 False) False = replicate 11 False"
  by (simp add: golay_shift_def eval_nat_numeral)

lemma foldl_golay_shift_zero:
  "foldl golay_shift (replicate 11 False) (replicate n False) = replicate 11 False"
  by (induction n) (simp_all add: golay_shift_zero)

lemma golay_parity_zero: "golay_parity (replicate n False) = replicate 11 False"
  by (simp add: golay_parity_def foldl_golay_shift_zero)

lemma error_pattern_Nil: "error_pattern [] = replicate 23 False"
  by (simp add: error_pattern_def map_replicate_const)

lemma syndrome_no_error: "syndrome (error_pattern []) = replicate 11 False"
  by (simp add: syndrome_def error_pattern_Nil golay_parity_zero xor_bits_self [of "replicate 11 False", simplified])

lemma syndrome_fec_encode: "length g = 12 \<Longrightarrow> syndrome (fec_encode g) = replicate 11 False"
  using xor_bits_self [of "golay_parity g"]
  by (simp add: syndrome_def fec_encode_def length_golay_parity)

lemma syndrome_table_no_error:
  "map_of syndrome_table (replicate 11 False) = Some (error_pattern [])"
  by (simp add: syndrome_table_def error_patterns_def syndrome_no_error)

lemma fec_decode_fec_encode:
  assumes "length g = 12"
  shows "fec_decode (fec_encode g) = (g, Some 0)"
proof -
  have "xor_bits (fec_encode g) (replicate 23 False) = fec_encode g"
    using assms by (simp add: xor_bits_zeros length_fec_encode)
  moreover have "take 12 (fec_encode g) = g"
    using assms by (simp add: fec_encode_def)
  ultimately show ?thesis
    using assms
    by (simp add: fec_decode_def syndrome_fec_encode syndrome_table_no_error error_pattern_Nil)
qed

lemma length_interleave: "length (interleave k xs) = 23 * k"
  by (simp add: interleave_def)

lemma length_deinterleave: "length (deinterleave k xs) = 23 * k"
  by (simp add: deinterleave_def)

lemma deinterleave_index:
  fixes i k :: nat
  assumes "i < 23 * k"
  shows "(i mod 23) * k + i div 23 < 23 * k"
    and "((i mod 23) * k + i div 23) mod k = i div 23"
    and "((i mod 23) * k + i div 23) div k = i mod 23"
proof -
  from assms have k: "0 < k" by (cases k) simp_all
  from assms have d: "i div 23 < k"
    by (simp add: less_mult_imp_div_less mult.commute)
  have m: "i mod 23 \<le> 22" by (simp add: Suc_leI le_simps(2) flip: less_Suc_eq_le)
  then have "(i mod 23) * k \<le> 22 * k" by (rule mult_le_mono1)
  with d show "(i mod 23) * k + i div 23 < 23 * k" by linarith
  from d show "((i mod 23) * k + i div 23) mod k = i div 23" by simp
  from d k show "((i mod 23) * k + i div 23) div k = i mod 23" by simp
qed

lemma deinterleave_interleave:
  assumes "length xs = 23 * k"
  shows "deinterleave k (interleave k xs) = xs"
proof (rule nth_equalityI)
  show "length (deinterleave k (interleave k xs)) = length xs"
    using assms by (simp add: length_deinterleave)
next
  fix i
  assume "i < length (deinterleave k (interleave k xs))"
  then have i: "i < 23 * k" by (simp add: length_deinterleave)
  note idx = deinterleave_index [OF i]
  have "deinterleave k (interleave k xs) ! i = interleave k xs ! ((i mod 23) * k + i div 23)"
    using i by (simp add: deinterleave_def)
  also have "\<dots> = xs ! (((i mod 23) * k + i div 23) mod k * 23 + ((i mod 23) * k + i div 23) div k)"
    using idx(1) by (simp add: interleave_def)
  also have "\<dots> = xs ! i"
    by (simp only: idx(2) idx(3)) simp
  finally show "deinterleave k (interleave k xs) ! i = xs ! i" .
qed

lemma length_scramble_mask: "length (scramble_mask n s) = n"
  by (induction n s rule: scramble_mask.induct) simp_all

lemma length_scramble: "length (scramble xs) = length xs"
  by (simp add: scramble_def length_xor_bits length_scramble_mask)

lemma scramble_scramble: "scramble (scramble xs) = xs"
  by (simp add: scramble_def length_xor_bits length_scramble_mask xor_bits_twice)

section \<open>The native round trip\<close>

text \<open>
  Without channel errors the decoder of the specification inverts its encoder, for a
  payload of any length: the frame starts with the unique word, every codeword has
  syndrome zero, and the checksum matches. The proofs use the shape of the pipeline and
  the lengths of its constants (11 generator coefficients, 2 checksum bytes), not the
  values chosen for the polynomials, the seed or the byte order.
\<close>

lemma length_checksum_bytes: "length (checksum_bytes c) = 2"
  by (simp add: checksum_bytes_def)

lemma l2_roundtrip:
  fixes inp :: "byte list" and n :: nat
  defines "payload \<equiv> take n (inp @ replicate n 0)"
  shows "l2_encode inp n = unique_word @ bits_to_bytes
            (scramble (interleave (num_codewords n)
               (concat (map fec_encode (map (zero_pad 12)
                  (chunks 12 (bytes_to_bits (payload @ checksum_bytes (crc16 payload)))))))))"
    and "length (l2_encode inp n) = 2 + (23 * num_codewords n + 7) div 8"
    and "l2_decode (l2_encode inp n) n =
           (payload, \<lparr>synced = True, checksum_ok = True,
                       error_counts = replicate (num_codewords n) (Some 0)\<rparr>)"
proof -
  define dat where "dat = payload @ checksum_bytes (crc16 payload)"
  define groups where "groups = map (zero_pad 12) (chunks 12 (bytes_to_bits dat))"
  define block where "block = concat (map fec_encode groups)"
  define k where "k = num_codewords n"
  define tx where "tx = scramble (interleave k block)"
  have len_payload: "length payload = n"
    by (simp add: payload_def)
  have len_dat: "length dat = n + 2"
    by (simp add: dat_def len_payload length_checksum_bytes)
  have len_bits: "length (bytes_to_bits dat) = 8 * (n + 2)"
    by (simp add: length_bytes_to_bits len_dat)
  have len_groups: "length groups = k"
    by (simp add: groups_def k_def num_codewords_def length_chunks len_bits)
  have g12: "\<forall>g \<in> set groups. length g = 12"
    unfolding groups_def using length_padded_chunk by blast
  then have cw23: "\<forall>c \<in> set (map fec_encode groups). length c = 23"
    by (simp add: length_fec_encode)
  have len_block: "length block = 23 * k"
    unfolding block_def using length_concat_uniform [OF cw23] by (simp add: len_groups)
  have len_tx: "length tx = 23 * k"
    by (simp add: tx_def length_scramble length_interleave)
  have "l2_encode inp n = unique_word @ bits_to_bytes (scramble (interleave (length groups) block))"
    unfolding l2_encode_def Let_def block_def groups_def dat_def payload_def by (rule refl)
  then have enc: "l2_encode inp n = unique_word @ bits_to_bytes tx"
    unfolding len_groups tx_def .
  then show "l2_encode inp n = unique_word @ bits_to_bytes
            (scramble (interleave (num_codewords n)
               (concat (map fec_encode (map (zero_pad 12)
                  (chunks 12 (bytes_to_bits (payload @ checksum_bytes (crc16 payload)))))))))"
    unfolding tx_def block_def groups_def dat_def k_def .
  from enc show "length (l2_encode inp n) = 2 + (23 * num_codewords n + 7) div 8"
    by (simp add: unique_word_def length_bits_to_bytes len_tx k_def)
  have fr: "deframe (l2_encode inp n) = (True, bits_to_bytes tx)"
    by (simp add: enc deframe_def unique_word_def)
  have "bytes_to_bits (bits_to_bytes tx) = tx @ replicate (8 * length (chunks 8 tx) - length tx) False"
    by (simp add: bytes_to_bits_bits_to_bytes padded_chunks)
  then have rx: "take (23 * k) (bytes_to_bits (bits_to_bytes tx) @ replicate (23 * k) False) = tx"
    by (simp add: len_tx)
  have deint: "deinterleave k (scramble tx) = block"
    by (simp add: tx_def scramble_scramble deinterleave_interleave len_block)
  have ch: "chunks 23 block = map fec_encode groups"
    unfolding block_def using cw23 by (intro chunks_concat_rows) simp_all
  have dec: "map fec_decode (map fec_encode groups) = map (\<lambda>g. (g, Some 0)) groups"
    using g12 by (simp add: fec_decode_fec_encode)
  have fsts: "concat (map fst (map (\<lambda>g. (g, Some (0::nat))) groups)) = concat groups"
    by (simp add: comp_def)
  have snds: "map snd (map (\<lambda>g. (g, Some (0::nat))) groups) = replicate k (Some 0)"
    by (simp add: comp_def map_replicate_const len_groups)
  have "take (length (bytes_to_bits dat)) (concat groups) = bytes_to_bits dat"
    unfolding groups_def by (rule take_padded_chunks) simp
  then have bits: "take (8 * (n + 2)) (concat groups) = bytes_to_bits dat"
    by (simp add: len_bits)
  have out: "bits_to_bytes (take (8 * (n + 2)) (concat groups)) = dat"
    by (simp only: bits bits_to_bytes_bytes_to_bits)
  have pl: "take n dat = payload" "drop n dat = checksum_bytes (crc16 payload)"
    by (simp_all add: dat_def len_payload)
  show "l2_decode (l2_encode inp n) n =
           (payload, \<lparr>synced = True, checksum_ok = True,
                       error_counts = replicate (num_codewords n) (Some 0)\<rparr>)"
    unfolding l2_decode_def fr Let_def prod.case k_def [symmetric] rx deint ch dec fsts snds out pl
    by simp
qed

lemma transmit_size_nat: "transmit_size (int n) = int (2 + (23 * num_codewords n + 7) div 8)"
  unfolding transmit_size_def num_codewords_def
  by (simp add: zdiv_int algebra_simps)

section \<open>The size function of the specification behind the wrapper\<close>

lemma transmit_size_mono: "m \<le> n \<Longrightarrow> transmit_size m \<le> transmit_size n"
proof -
  assume "m \<le> n"
  then have "(8 * m + 16 + 11) div 12 \<le> (8 * n + 16 + 11) div 12"
    by (intro zdiv_mono1) simp_all
  then have "((8 * m + 16 + 11) div 12) * 23 + 7 \<le> ((8 * n + 16 + 11) div 12) * 23 + 7"
    by simp
  then have "(((8 * m + 16 + 11) div 12) * 23 + 7) div 8 \<le> (((8 * n + 16 + 11) div 12) * 23 + 7) div 8"
    by (intro zdiv_mono1) simp_all
  then show ?thesis by (simp add: transmit_size_def)
qed

lemma transmit_size_ge: "0 \<le> n \<Longrightarrow> n \<le> transmit_size n"
proof -
  assume n: "0 \<le> n"
  have "n \<le> int (2 + (23 * num_codewords (nat n) + 7) div 8)"
    unfolding num_codewords_def by simp
  with n transmit_size_nat [of "nat n"] show ?thesis by simp
qed

lemma horus_size:
  assumes "0 \<le> n" and "transmit_size n < 2 ^ 31"
  shows "get_num_tx_data_bytes horus_encoder n = Inr (transmit_size n)"
proof -
  from assms transmit_size_ge [of n] have n: "n < 2 ^ 31" by simp
  with assms(1) have a: "as_c_int n = Inr (word_of_int n)"
    by (simp add: as_c_int_in_range)
  from assms(1) n have s: "sint (word_of_int n :: 32 word) = n"
    by (simp add: sint_word_of_int_32)
  from assms(1) transmit_size_ge [of n] have "0 \<le> transmit_size n" by simp
  with assms(2) have "sint (word_of_int (transmit_size n) :: 32 word) = transmit_size n"
    by (simp add: sint_word_of_int_32)
  with a s show ?thesis
    by (simp add: get_num_tx_data_bytes_def horus_encoder_def horus_lib_def)
qed

section \<open>Type errors\<close>

text \<open>
  C3. An input that is not a \<open>bytes\<close> object makes \<open>horus_l2_encode_packet\<close> fail, and as the
  frame makes \<open>horus_l2_decode_packet(frame, 22)\<close> fail, with the type error (the spec's
  \<open>InvalidInputError\<close> is Python's \<open>TypeError\<close> here). The test is the first statement of
  both methods: the result is the error whatever the host and the native library are, so
  no native function ran and nothing was converted.
\<close>

theorem non_bytes_input_rejected:
  "\<not> is_bytes v \<Longrightarrow>
     horus_l2_encode_packet h self v = Inl TypeError \<and>
     horus_l2_decode_packet h self v 22 = Inl TypeError"
  by (cases v) (simp_all add: horus_l2_encode_packet_def horus_l2_decode_packet_def)

theorem non_bytes_input_rejected_witness:
  "\<forall>h self. \<not> is_bytes (PyStr ''not bytes'') \<and>
     horus_l2_encode_packet h self (PyStr ''not bytes'') = Inl TypeError \<and>
     horus_l2_decode_packet h self (PyStr ''not bytes'') 22 = Inl TypeError"
  using non_bytes_input_rejected [of "PyStr ''not bytes''"] by simp

section \<open>What decode returns\<close>

text \<open>
  C10, as the code has it. For a \<open>bytes\<close> packet of any length and content, so also one
  that does not start with 0x24 0x24, and a positive \<open>num_payload_bytes\<close> whose output
  array ctypes can make (a length below \<open>2^63\<close> that the host grants, as it does every
  length below \<open>2^31\<close>), \<open>horus_l2_decode_packet\<close> returns a \<open>bytes\<close> object of exactly
  \<open>num_payload_bytes\<close> bytes. The result is the output array after the native call on the
  whole packet: the method makes no case distinction on the packet's bytes, so it never
  looks at the unique word. For the other positive lengths it raises: \<open>OverflowError\<close>
  from \<open>2^63\<close> on, \<open>MemoryError\<close> when the host does not grant the array.
\<close>

theorem decode_returns_requested_length:
  "0 < num_payload_bytes \<Longrightarrow>
     (num_payload_bytes < 2 ^ 63 \<and> array_granted h num_payload_bytes \<longrightarrow>
        horus_l2_decode_packet h self (PyBytes packet) num_payload_bytes =
          Inr (PyBytes (stored_in (replicate (nat num_payload_bytes) 0)
                 (horus_l2_decode_rx_packet (c_lib self) packet
                    (word_of_int num_payload_bytes)))) \<and>
        int (length (stored_in (replicate (nat num_payload_bytes) 0)
                 (horus_l2_decode_rx_packet (c_lib self) packet
                    (word_of_int num_payload_bytes))))
          = num_payload_bytes) \<and>
     (2 ^ 63 \<le> num_payload_bytes \<longrightarrow>
        horus_l2_decode_packet h self (PyBytes packet) num_payload_bytes = Inl OverflowError) \<and>
     (num_payload_bytes < 2 ^ 63 \<and> \<not> array_granted h num_payload_bytes \<longrightarrow>
        horus_l2_decode_packet h self (PyBytes packet) num_payload_bytes = Inl MemoryError)"
  by (simp add: decode_packet_bytes decode_packet_overflow decode_packet_memory length_stored_in)

theorem decode_returns_requested_length_witness:
  "\<forall>h self lib. take 2 [0x00, 0x01, 0x02 :: byte] \<noteq> [0x24, 0x24] \<and>
     array_granted h 22 \<and>
     horus_l2_decode_packet h self (PyBytes [0x00, 0x01, 0x02]) 22 =
       Inr (PyBytes (stored_in (replicate 22 0)
              (horus_l2_decode_rx_packet (c_lib self) [0x00, 0x01, 0x02] 22))) \<and>
     length (stored_in (replicate 22 0)
              (horus_l2_decode_rx_packet (c_lib self) [0x00, 0x01, 0x02] 22)) = 22 \<and>
     horus_l2_decode_packet h self (PyBytes [0x00, 0x01, 0x02]) 9223372036854775808
       = Inl OverflowError \<and>
     \<not> array_granted (linux_host looked_up lib) 1099511627776 \<and>
     horus_l2_decode_packet (linux_host looked_up lib) self (PyBytes [0x00, 0x01, 0x02])
       1099511627776 = Inl MemoryError"
proof (intro allI)
  fix h :: host and self :: Encoder and lib :: native_lib
  have g: "array_granted h 22"
    by (simp add: array_granted_def)
  have m: "\<not> array_granted (linux_host looked_up lib) 1099511627776"
    by (simp add: array_granted_def linux_host_def)
  from g m
    decode_returns_requested_length [of 22 h self "[0x00, 0x01, 0x02]"]
    decode_returns_requested_length [of 9223372036854775808 h self "[0x00, 0x01, 0x02]"]
    decode_returns_requested_length
      [of 1099511627776 "linux_host looked_up lib" self "[0x00, 0x01, 0x02]"]
  show "take 2 [0x00, 0x01, 0x02 :: byte] \<noteq> [0x24, 0x24] \<and>
     array_granted h 22 \<and>
     horus_l2_decode_packet h self (PyBytes [0x00, 0x01, 0x02]) 22 =
       Inr (PyBytes (stored_in (replicate 22 0)
              (horus_l2_decode_rx_packet (c_lib self) [0x00, 0x01, 0x02] 22))) \<and>
     length (stored_in (replicate 22 0)
              (horus_l2_decode_rx_packet (c_lib self) [0x00, 0x01, 0x02] 22)) = 22 \<and>
     horus_l2_decode_packet h self (PyBytes [0x00, 0x01, 0x02]) 9223372036854775808
       = Inl OverflowError \<and>
     \<not> array_granted (linux_host looked_up lib) 1099511627776 \<and>
     horus_l2_decode_packet (linux_host looked_up lib) self (PyBytes [0x00, 0x01, 0x02])
       1099511627776 = Inl MemoryError"
    by simp
qed

text \<open>
  C10 as stated fails: with \<open>num_payload_bytes = 2^63\<close>, a positive integer, the call on
  a \<open>bytes\<close> packet raises \<open>OverflowError\<close> (from \<open>c_ubyte * num_payload_bytes\<close>) on every
  host and with every native library.
\<close>

theorem decode_huge_length_counterexample:
  "\<forall>h self. (0::int) < 9223372036854775808 \<and>
     horus_l2_decode_packet h self (PyBytes [0x00, 0x01, 0x02]) 9223372036854775808
       = Inl OverflowError"
  by (simp add: decode_packet_overflow)

text \<open>
  C2, as the code has it. For a \<open>bytes\<close> frame and a supported \<open>expected_payload_len\<close>
  (22 or 32), \<open>horus_l2_decode_packet\<close> never raises, whatever the frame holds, and returns
  the payload bytes alone, exactly \<open>expected_payload_len\<close> of them. It returns no
  \<open>checksum_ok\<close> and no error counts, so this method does not report corruption at all.
\<close>

theorem decode_returns_payload_only:
  "n = 22 \<or> n = 32 \<Longrightarrow>
     (\<exists>payload. horus_l2_decode_packet h self (PyBytes frame) n = Inr (PyBytes payload) \<and>
        int (length payload) = n) \<and>
     reported_status (horus_l2_decode_packet h self (PyBytes frame) n) = None"
  by (auto simp add: decode_packet_small length_stored_in)

theorem decode_returns_payload_only_witness:
  "\<forall>h self. ((32::int) = 22 \<or> (32::int) = 32) \<and>
     (\<exists>payload. horus_l2_decode_packet h self (PyBytes (replicate 69 0xFF)) 32
          = Inr (PyBytes payload) \<and> int (length payload) = 32) \<and>
     reported_status (horus_l2_decode_packet h self (PyBytes (replicate 69 0xFF)) 32) = None"
  using decode_returns_payload_only [of 32 _ _ "replicate 69 0xFF"] by simp

text \<open>
  C2 as stated fails: decoding a corrupted frame (45 bytes 0xFF) with length 22 yields a
  value from which no \<open>checksum_ok\<close> and no error counts can be read, for every native
  library.
\<close>

theorem decode_reports_no_status_counterexample:
  "\<forall>h self. reported_status
     (horus_l2_decode_packet h self (PyBytes (replicate 45 0xFF)) 22) = None"
  by (simp add: decode_packet_small)




text \<open>
  C7, as the code has it. Decoding the self-test frame 2424C06B...7A98 with length 22
  returns a \<open>bytes\<close> object of exactly 22 bytes and raises nothing, for every native
  library. The method returns neither a sync status nor \<open>checksum_ok\<close> nor error counts.
\<close>

theorem decode_self_test_frame:
  "(\<exists>payload. horus_l2_decode_packet h self (PyBytes horus_v1_encoded) 22
       = Inr (PyBytes payload) \<and> length payload = 22) \<and>
   reported_status (horus_l2_decode_packet h self (PyBytes horus_v1_encoded) 22) = None"
  by (simp add: decode_packet_small length_stored_in)

theorem decode_self_test_frame_witness:
  "\<forall>h self. length horus_v1_encoded = 45 \<and> take 2 horus_v1_encoded = [0x24, 0x24] \<and>
     (\<exists>payload. horus_l2_decode_packet h self (PyBytes horus_v1_encoded) 22
        = Inr (PyBytes payload) \<and> length payload = 22) \<and>
     reported_status (horus_l2_decode_packet h self (PyBytes horus_v1_encoded) 22) = None"
  using decode_self_test_frame by (simp add: horus_v1_encoded_def)

text \<open>
  C7 as stated fails: from the value returned for the self-test frame no sync status,
  \<open>checksum_ok\<close> or error counts can be read; it is a bare \<open>bytes\<close> object.
\<close>

theorem decode_self_test_frame_counterexample:
  "\<forall>h self. returns_bytes (horus_l2_decode_packet h self (PyBytes horus_v1_encoded) 22) \<and>
     reported_status (horus_l2_decode_packet h self (PyBytes horus_v1_encoded) 22) = None"
  by (simp add: decode_packet_small)

section \<open>Initialisation\<close>

lemma construct_encoders_count:
  "construct_encoders h libpath k init_calls = (None, n) \<Longrightarrow> n = init_calls + k"
proof (induction k arbitrary: init_calls)
  case 0
  then show ?case by simp
next
  case (Suc k)
  obtain r c where e: "Encoder_init h libpath init_calls = (r, c)"
    by (cases "Encoder_init h libpath init_calls")
  show ?case
  proof (cases r)
    case (Inl err)
    with e Suc.prems show ?thesis by simp
  next
    case (Inr enc)
    with e have "c = Suc init_calls"
      by (auto simp add: Encoder_init_def split: option.splits if_splits)
    moreover from e Inr Suc.prems have "construct_encoders h libpath k c = (None, n)"
      by simp
    then have "n = c + k" by (rule Suc.IH)
    ultimately show ?thesis by simp
  qed
qed

text \<open>
  C8, as the code has it. A construction of an \<open>Encoder\<close> that succeeds calls
  \<open>horus_l2_init()\<close> exactly once, with no guard; one that raises (the library does not
  load, or lacks a symbol) does not call it. So after \<open>k\<close> successful constructions in a
  process the call has run \<open>k\<close> more times.
\<close>

theorem init_runs_once_per_construction:
  "(Encoder_init h libpath init_calls = (Inr enc, n) \<longrightarrow> n = Suc init_calls) \<and>
   (Encoder_init h libpath init_calls = (Inl e, n) \<longrightarrow> n = init_calls) \<and>
   (construct_encoders h libpath k init_calls = (None, n') \<longrightarrow> n' = init_calls + k)"
  by (auto simp add: Encoder_init_def construct_encoders_count split: option.splits if_splits)

theorem init_runs_once_per_construction_witness:
  "\<forall>lib.
     fst (Encoder_init (linux_host looked_up lib) '''' 0) = Inr \<lparr>c_lib = lib\<rparr> \<and>
     snd (Encoder_init (linux_host looked_up lib) '''' 0) = Suc 0 \<and>
     fst (Encoder_init (linux_host (butlast looked_up) lib) '''' 0) = Inl AttributeError \<and>
     snd (Encoder_init (linux_host (butlast looked_up) lib) '''' 0) = 0 \<and>
     fst (Encoder_init (linux_host looked_up lib) ''/opt'' 0) = Inl OSError \<and>
     snd (Encoder_init (linux_host looked_up lib) ''/opt'' 0) = 0 \<and>
     fst (construct_encoders (linux_host looked_up lib) '''' 3 0) = None \<and>
     snd (construct_encoders (linux_host looked_up lib) '''' 3 0) = 0 + 3"
proof
  fix lib
  have a: "fst (Encoder_init (linux_host looked_up lib) '''' 0) = Inr \<lparr>c_lib = lib\<rparr>"
    by (simp add: Encoder_init_def linux_host_def libhorus_path_def posix_join_def looked_up_def)
  have b: "fst (Encoder_init (linux_host (butlast looked_up) lib) '''' 0) = Inl AttributeError"
    by (simp add: Encoder_init_def linux_host_def libhorus_path_def posix_join_def looked_up_def)
  have c: "fst (Encoder_init (linux_host looked_up lib) ''/opt'' 0) = Inl OSError"
    by (simp add: Encoder_init_def linux_host_def libhorus_path_def posix_join_def looked_up_def)
  have d: "fst (construct_encoders (linux_host looked_up lib) '''' 3 0) = None"
    by (simp add: numeral_3_eq_3 Encoder_init_def linux_host_def libhorus_path_def
        posix_join_def looked_up_def)
  from a init_runs_once_per_construction
    [of "linux_host looked_up lib" "''''" 0 "\<lparr>c_lib = lib\<rparr>"
        "snd (Encoder_init (linux_host looked_up lib) '''' 0)"]
  have a': "snd (Encoder_init (linux_host looked_up lib) '''' 0) = Suc 0"
    by (metis prod.collapse)
  from b init_runs_once_per_construction
    [of "linux_host (butlast looked_up) lib" "''''" 0 _
        "snd (Encoder_init (linux_host (butlast looked_up) lib) '''' 0)" AttributeError]
  have b': "snd (Encoder_init (linux_host (butlast looked_up) lib) '''' 0) = 0"
    by (metis prod.collapse)
  from c init_runs_once_per_construction
    [of "linux_host looked_up lib" "''/opt''" 0 _
        "snd (Encoder_init (linux_host looked_up lib) ''/opt'' 0)" OSError]
  have c': "snd (Encoder_init (linux_host looked_up lib) ''/opt'' 0) = 0"
    by (metis prod.collapse)
  from d init_runs_once_per_construction
    [of "linux_host looked_up lib" "''''" 0 _ _ _ 3
        "snd (construct_encoders (linux_host looked_up lib) '''' 3 0)"]
  have d': "snd (construct_encoders (linux_host looked_up lib) '''' 3 0) = 0 + 3"
    by (metis prod.collapse)
  from a a' b b' c c' d d'
  show "fst (Encoder_init (linux_host looked_up lib) '''' 0) = Inr \<lparr>c_lib = lib\<rparr> \<and>
     snd (Encoder_init (linux_host looked_up lib) '''' 0) = Suc 0 \<and>
     fst (Encoder_init (linux_host (butlast looked_up) lib) '''' 0) = Inl AttributeError \<and>
     snd (Encoder_init (linux_host (butlast looked_up) lib) '''' 0) = 0 \<and>
     fst (Encoder_init (linux_host looked_up lib) ''/opt'' 0) = Inl OSError \<and>
     snd (Encoder_init (linux_host looked_up lib) ''/opt'' 0) = 0 \<and>
     fst (construct_encoders (linux_host looked_up lib) '''' 3 0) = None \<and>
     snd (construct_encoders (linux_host looked_up lib) '''' 3 0) = 0 + 3"
    by simp
qed

text \<open>
  C8 as stated fails: constructing two encoders in a fresh process, on a host where the
  library loads with all its symbols, leaves the count of \<open>horus_l2_init()\<close> calls at 2,
  so the call did run a second time.
\<close>

theorem init_runs_twice_counterexample:
  "\<forall>lib. construct_encoders (linux_host looked_up lib) '''' 2 0 = (None, 2)"
  by (simp add: numeral_2_eq_2 Encoder_init_def linux_host_def libhorus_path_def posix_join_def
      looked_up_def)

section \<open>What encode returns\<close>

text \<open>
  C9. For a \<open>bytes\<close> packet, the buffer \<open>horus_l2_encode_packet\<close> returns as the first
  element of its result is exactly \<open>get_num_tx_data_bytes(len(packet))\<close> bytes long,
  whatever the native encoder stored: the array is made with that length before the
  native call. (Were the native size negative, ctypes would refuse the array with
  \<open>ValueError\<close> and nothing would be returned.) Holds for every host and native library.
\<close>

theorem encoded_length_is_transmit_size:
  "get_num_tx_data_bytes self (int (length packet)) = Inr tx_size \<Longrightarrow>
     (0 \<le> tx_size \<longrightarrow>
        (\<exists>encoded num_bytes.
           horus_l2_encode_packet h self (PyBytes packet)
             = Inr (PyTuple [PyBytes encoded, PyInt num_bytes]) \<and>
           int (length encoded) = tx_size)) \<and>
     (tx_size < 0 \<longrightarrow> horus_l2_encode_packet h self (PyBytes packet) = Inl ValueError)"
  by (simp add: encode_packet_bytes encode_packet_negative length_stored_in)

theorem encoded_length_is_transmit_size_witness:
  "\<forall>h. get_num_tx_data_bytes horus_encoder (int (length horus_v1_unencoded)) = Inr 48 \<and>
   (\<exists>encoded num_bytes.
      horus_l2_encode_packet h horus_encoder (PyBytes horus_v1_unencoded)
        = Inr (PyTuple [PyBytes encoded, PyInt num_bytes]) \<and>
      int (length encoded) = 48) \<and>
   get_num_tx_data_bytes
     \<lparr>c_lib = horus_lib\<lparr>horus_l2_get_num_tx_data_bytes := (\<lambda>n. - 1)\<rparr>\<rparr>
     (int (length horus_v1_unencoded)) = Inr (- 1) \<and>
   horus_l2_encode_packet h
     \<lparr>c_lib = horus_lib\<lparr>horus_l2_get_num_tx_data_bytes := (\<lambda>n. - 1)\<rparr>\<rparr>
     (PyBytes horus_v1_unencoded) = Inl ValueError"
proof
  fix h :: host
  have len: "int (length horus_v1_unencoded) = 22"
    by (simp add: horus_v1_unencoded_def)
  have "transmit_size 22 = 48"
    by (simp add: transmit_size_def)
  with horus_size [of 22]
  have tx_size: "get_num_tx_data_bytes horus_encoder (int (length horus_v1_unencoded)) = Inr 48"
    by (simp add: len)
  have neg: "get_num_tx_data_bytes
     \<lparr>c_lib = horus_lib\<lparr>horus_l2_get_num_tx_data_bytes := (\<lambda>n. - 1)\<rparr>\<rparr>
     (int (length horus_v1_unencoded)) = Inr (- 1)"
    by (simp add: get_num_tx_data_bytes_def as_c_int_def len)
  from tx_size neg
    encoded_length_is_transmit_size [OF tx_size, of h]
    encoded_length_is_transmit_size [OF neg, of h]
  show "get_num_tx_data_bytes horus_encoder (int (length horus_v1_unencoded)) = Inr 48 \<and>
   (\<exists>encoded num_bytes.
      horus_l2_encode_packet h horus_encoder (PyBytes horus_v1_unencoded)
        = Inr (PyTuple [PyBytes encoded, PyInt num_bytes]) \<and>
      int (length encoded) = 48) \<and>
   get_num_tx_data_bytes
     \<lparr>c_lib = horus_lib\<lparr>horus_l2_get_num_tx_data_bytes := (\<lambda>n. - 1)\<rparr>\<rparr>
     (int (length horus_v1_unencoded)) = Inr (- 1) \<and>
   horus_l2_encode_packet h
     \<lparr>c_lib = horus_lib\<lparr>horus_l2_get_num_tx_data_bytes := (\<lambda>n. - 1)\<rparr>\<rparr>
     (PyBytes horus_v1_unencoded) = Inl ValueError"
    by simp
qed

text \<open>
  C5, as the code has it. For a \<open>bytes\<close> payload (whose native transmit size is not
  negative), \<open>horus_l2_encode_packet\<close> returns a pair: first the complete transmit buffer
  as a \<open>bytes\<close> object (the output array after the native call), second the integer the
  native encoder returned. It never returns a single \<open>bytes\<close> object.
\<close>

theorem encode_returns_pair:
  "get_num_tx_data_bytes self (int (length payload)) = Inr tx_size \<Longrightarrow> 0 \<le> tx_size \<Longrightarrow>
     horus_l2_encode_packet h self (PyBytes payload) =
       Inr (PyTuple
         [PyBytes (stored_in (replicate (nat tx_size) 0)
                     (fst (horus_l2_encode_tx_packet (c_lib self) payload
                             (word_of_int (int (length payload)))))),
          PyInt (sint (snd (horus_l2_encode_tx_packet (c_lib self) payload
                             (word_of_int (int (length payload))))))]) \<and>
     \<not> returns_bytes (horus_l2_encode_packet h self (PyBytes payload))"
  by (simp add: encode_packet_bytes)

theorem encode_returns_pair_witness:
  "\<forall>h. get_num_tx_data_bytes horus_encoder (int (length [0x01, 0x02, 0x03 :: byte])) = Inr 14 \<and>
   horus_l2_encode_packet h horus_encoder (PyBytes [0x01, 0x02, 0x03]) =
     Inr (PyTuple [PyBytes (l2_encode [0x01, 0x02, 0x03] 3), PyInt 14]) \<and>
   \<not> returns_bytes (horus_l2_encode_packet h horus_encoder (PyBytes [0x01, 0x02, 0x03]))"
proof
  fix h :: host
  have "transmit_size 3 = 14"
    by (simp add: transmit_size_def)
  with horus_size [of 3]
  have tx_size: "get_num_tx_data_bytes horus_encoder (int (length [0x01, 0x02, 0x03 :: byte])) = Inr 14"
    by simp
  have len: "length (l2_encode [0x01, 0x02, 0x03] 3) = 14"
    by (simp add: l2_roundtrip(2) num_codewords_def)
  have nat: "horus_l2_encode_tx_packet (c_lib horus_encoder) [0x01, 0x02, 0x03] 3
      = (l2_encode [0x01, 0x02, 0x03] 3, 14)"
    by (simp add: horus_encoder_def horus_lib_def transmit_size_def)
  from encode_returns_pair [OF tx_size, of h] tx_size nat len
  show "get_num_tx_data_bytes horus_encoder (int (length [0x01, 0x02, 0x03 :: byte])) = Inr 14 \<and>
   horus_l2_encode_packet h horus_encoder (PyBytes [0x01, 0x02, 0x03]) =
     Inr (PyTuple [PyBytes (l2_encode [0x01, 0x02, 0x03] 3), PyInt 14]) \<and>
   \<not> returns_bytes (horus_l2_encode_packet h horus_encoder (PyBytes [0x01, 0x02, 0x03]))"
    by (simp add: stored_in_exact)
qed

text \<open>
  C5 as stated fails: for the self-test payload the result is never a single \<open>bytes\<close>
  object, whatever the host and the native library (it is a 2-tuple, or the call raised).
\<close>

theorem encode_not_bytes_counterexample:
  "\<forall>h self. \<not> returns_bytes (horus_l2_encode_packet h self (PyBytes horus_v1_unencoded))"
proof (intro allI)
  fix h :: host and self :: Encoder
  show "\<not> returns_bytes (horus_l2_encode_packet h self (PyBytes horus_v1_unencoded))"
  proof (cases "get_num_tx_data_bytes self (int (length horus_v1_unencoded))")
    case (Inl e)
    then show ?thesis by (simp add: encode_packet_refused)
  next
    case (Inr tx_size)
    then show ?thesis
      by (cases "0 \<le> tx_size") (simp_all add: encode_packet_bytes encode_packet_negative)
  qed
qed

section \<open>The transmit size\<close>

text \<open>
  C6, as the code has it, with the size function of the specification as the native
  \<open>horus_l2_get_num_tx_data_bytes\<close>. For payload lengths whose transmit size fits a C
  \<open>int\<close>, \<open>get_num_tx_data_bytes(n)\<close> is the closed formula of \<open>n\<close> alone (so every call
  with the same \<open>n\<close> gives the same value) and it is monotonic non-decreasing in \<open>n\<close>. For
  every library and every argument, the method does not use the encoder or the decoder:
  replacing both native functions by any others leaves its value unchanged.
\<close>

theorem transmit_size_deterministic_monotone:
  "0 \<le> m \<Longrightarrow> m \<le> n \<Longrightarrow> transmit_size n < 2 ^ 31 \<Longrightarrow>
     get_num_tx_data_bytes horus_encoder m
       = Inr (2 + (((8 * m + 16 + 11) div 12) * 23 + 7) div 8) \<and>
     get_num_tx_data_bytes horus_encoder n
       = Inr (2 + (((8 * n + 16 + 11) div 12) * 23 + 7) div 8) \<and>
     2 + (((8 * m + 16 + 11) div 12) * 23 + 7) div 8
       \<le> 2 + (((8 * n + 16 + 11) div 12) * 23 + 7) div 8 \<and>
     get_num_tx_data_bytes
       \<lparr>c_lib = (c_lib self)\<lparr>horus_l2_encode_tx_packet := enc, horus_l2_decode_rx_packet := dec\<rparr>\<rparr> k
       = get_num_tx_data_bytes self k"
proof -
  assume m: "0 \<le> m" and mn: "m \<le> n" and n: "transmit_size n < 2 ^ 31"
  from mn have le: "transmit_size m \<le> transmit_size n"
    by (rule transmit_size_mono)
  with n have "transmit_size m < 2 ^ 31" by simp
  with m have "get_num_tx_data_bytes horus_encoder m = Inr (transmit_size m)"
    by (rule horus_size)
  moreover from m mn n have "get_num_tx_data_bytes horus_encoder n = Inr (transmit_size n)"
    by (intro horus_size) simp_all
  moreover have "get_num_tx_data_bytes
       \<lparr>c_lib = (c_lib self)\<lparr>horus_l2_encode_tx_packet := enc, horus_l2_decode_rx_packet := dec\<rparr>\<rparr> k
       = get_num_tx_data_bytes self k"
    by (simp add: get_num_tx_data_bytes_def split: sum.split)
  ultimately show ?thesis
    using le by (simp add: transmit_size_def)
qed

theorem transmit_size_deterministic_monotone_witness:
  "(0::int) \<le> 22 \<and> (22::int) \<le> 32 \<and> transmit_size 32 < 2 ^ 31 \<and>
   get_num_tx_data_bytes horus_encoder 22 = Inr 48 \<and>
   get_num_tx_data_bytes horus_encoder 32 = Inr 69 \<and>
   (\<forall>enc dec. get_num_tx_data_bytes
     \<lparr>c_lib = (c_lib horus_encoder)
        \<lparr>horus_l2_encode_tx_packet := enc, horus_l2_decode_rx_packet := dec\<rparr>\<rparr> 32
     = get_num_tx_data_bytes horus_encoder 32)"
proof -
  have t: "transmit_size 32 < 2 ^ 31"
    by (simp add: transmit_size_def)
  from t transmit_size_deterministic_monotone
    [where m = 22 and n = 32 and self = horus_encoder and k = 32]
  show ?thesis by simp
qed

text \<open>
  C6 as stated fails: the argument goes to the native function as a C \<open>int\<close>, so
  \<open>get_num_tx_data_bytes(2^32 + 22)\<close> is \<open>get_num_tx_data_bytes(22)\<close>, which is 48 and less
  than the 69 of \<open>get_num_tx_data_bytes(32)\<close>.
\<close>

theorem transmit_size_wraps_counterexample:
  "(32::int) \<le> 4294967318 \<and>
   get_num_tx_data_bytes horus_encoder 32 = Inr 69 \<and>
   get_num_tx_data_bytes horus_encoder 4294967318 = Inr 48 \<and>
   \<not> (69::int) \<le> 48"
proof -
  have "transmit_size 32 = 69"
    by (simp add: transmit_size_def)
  with horus_size [of 32] have a: "get_num_tx_data_bytes horus_encoder 32 = Inr 69"
    by simp
  have w: "(word_of_int 4294967318 :: 32 word) = 22"
    by simp
  have "sint (word_of_int (transmit_size (sint (22 :: 32 word))) :: 32 word) = 48"
    by (simp add: transmit_size_def)
  with w have b: "get_num_tx_data_bytes horus_encoder 4294967318 = Inr 48"
    by (simp add: get_num_tx_data_bytes_def as_c_int_def horus_encoder_def horus_lib_def)
  from a b show ?thesis by simp
qed

section \<open>Round trip\<close>

lemma horus_round_trip:
  assumes "transmit_size (int (length p)) < 2 ^ 31"
  shows "horus_l2_encode_packet h horus_encoder (PyBytes p)
     = Inr (PyTuple [PyBytes (l2_encode p (length p)), PyInt (transmit_size (int (length p)))])"
    and "horus_l2_decode_packet h horus_encoder (PyBytes (l2_encode p (length p))) (int (length p))
     = Inr (PyBytes p)"
    and "checksum_ok (snd (l2_decode (l2_encode p (length p)) (length p)))"
proof -
  from assms transmit_size_ge [of "int (length p)"] have len: "int (length p) < 2 ^ 31"
    by simp
  with sint_word_of_int_32 [of "int (length p)"]
  have s: "sint (of_nat (length p) :: 32 word) = int (length p)"
    by simp
  from assms transmit_size_ge [of "int (length p)"]
  have t: "sint (word_of_int (transmit_size (int (length p))) :: 32 word)
      = transmit_size (int (length p))"
    by (intro sint_word_of_int_32) simp_all
  have tx_size: "get_num_tx_data_bytes horus_encoder (int (length p))
      = Inr (int (length (l2_encode p (length p))))"
    using horus_size [OF _ assms] by (simp add: transmit_size_nat l2_roundtrip(2))
  have nat: "horus_l2_encode_tx_packet (c_lib horus_encoder) p (of_nat (length p))
      = (l2_encode p (length p), word_of_int (transmit_size (int (length p))))"
    by (simp add: horus_encoder_def horus_lib_def s)
  from encode_packet_bytes [OF tx_size, of h]
  show "horus_l2_encode_packet h horus_encoder (PyBytes p)
     = Inr (PyTuple [PyBytes (l2_encode p (length p)), PyInt (transmit_size (int (length p)))])"
    by (simp add: nat t stored_in_exact)
  have dec: "horus_l2_decode_rx_packet (c_lib horus_encoder) (l2_encode p (length p))
      (of_nat (length p)) = p"
    by (simp add: horus_encoder_def horus_lib_def s l2_roundtrip(3))
  from len show "horus_l2_decode_packet h horus_encoder (PyBytes (l2_encode p (length p)))
      (int (length p)) = Inr (PyBytes p)"
    by (simp add: decode_packet_small dec stored_in_exact)
  show "checksum_ok (snd (l2_decode (l2_encode p (length p)) (length p)))"
    by (simp add: l2_roundtrip(3))
qed

text \<open>
  C1, as the code has it, with the native codec of the specification. For a payload \<open>p\<close>
  of 22 or 32 bytes, \<open>horus_l2_encode_packet\<close> returns a pair whose first element is the
  frame, and decoding that frame with expected length \<open>len(p)\<close> returns exactly \<open>p\<close>, as
  a bare \<open>bytes\<close> object. The decoder's checksum test passes on that frame inside the
  library, but the wrapper returns no \<open>checksum_ok\<close>.
\<close>

theorem encode_decode_round_trip:
  "length p = 22 \<or> length p = 32 \<Longrightarrow>
     (\<exists>frame num_bytes.
        horus_l2_encode_packet h horus_encoder (PyBytes p)
          = Inr (PyTuple [PyBytes frame, PyInt num_bytes]) \<and>
        horus_l2_decode_packet h horus_encoder (PyBytes frame) (int (length p)) = Inr (PyBytes p) \<and>
        checksum_ok (snd (l2_decode frame (length p))))"
proof -
  assume "length p = 22 \<or> length p = 32"
  then have "transmit_size (int (length p)) < 2 ^ 31"
    by (auto simp add: transmit_size_def)
  from horus_round_trip(1,2) [OF this, of h] horus_round_trip(3) [OF this]
  show ?thesis by blast
qed

theorem encode_decode_round_trip_witness:
  "\<forall>h. (length horus_v1_unencoded = 22 \<or> length horus_v1_unencoded = 32) \<and>
   (\<exists>frame num_bytes.
      horus_l2_encode_packet h horus_encoder (PyBytes horus_v1_unencoded)
        = Inr (PyTuple [PyBytes frame, PyInt num_bytes]) \<and>
      horus_l2_decode_packet h horus_encoder (PyBytes frame) (int (length horus_v1_unencoded))
        = Inr (PyBytes horus_v1_unencoded) \<and>
      checksum_ok (snd (l2_decode frame (length horus_v1_unencoded))))"
proof
  fix h :: host
  have len: "length horus_v1_unencoded = 22 \<or> length horus_v1_unencoded = 32"
    by (simp add: horus_v1_unencoded_def)
  from len encode_decode_round_trip [OF len, of h]
  show "(length horus_v1_unencoded = 22 \<or> length horus_v1_unencoded = 32) \<and>
   (\<exists>frame num_bytes.
      horus_l2_encode_packet h horus_encoder (PyBytes horus_v1_unencoded)
        = Inr (PyTuple [PyBytes frame, PyInt num_bytes]) \<and>
      horus_l2_decode_packet h horus_encoder (PyBytes frame) (int (length horus_v1_unencoded))
        = Inr (PyBytes horus_v1_unencoded) \<and>
      checksum_ok (snd (l2_decode frame (length horus_v1_unencoded))))"
    by blast
qed

text \<open>
  C1 as stated fails: decoding the frame made from the self-test payload gives the
  payload back as a bare \<open>bytes\<close> object, from which no \<open>checksum_ok\<close> can be read; and
  the value \<open>encode\<close> returned, passed to \<open>decode\<close> as it is, is refused as not \<open>bytes\<close>.
\<close>

theorem round_trip_reports_no_checksum_counterexample:
  "\<forall>h. reported_status
     (horus_l2_decode_packet h horus_encoder (PyBytes (l2_encode horus_v1_unencoded 22)) 22) = None \<and>
   horus_l2_encode_packet h horus_encoder (PyBytes horus_v1_unencoded)
     = Inr (PyTuple [PyBytes (l2_encode horus_v1_unencoded 22), PyInt 48]) \<and>
   horus_l2_decode_packet h horus_encoder
     (PyTuple [PyBytes (l2_encode horus_v1_unencoded 22), PyInt 48]) 22 = Inl TypeError"
proof
  fix h :: host
  have len: "length horus_v1_unencoded = 22"
    by (simp add: horus_v1_unencoded_def)
  have t: "transmit_size 22 = 48"
    by (simp add: transmit_size_def)
  then have "transmit_size (int (length horus_v1_unencoded)) < 2 ^ 31"
    by (simp add: len)
  from horus_round_trip(1) [OF this, of h] len t
  have "horus_l2_encode_packet h horus_encoder (PyBytes horus_v1_unencoded)
     = Inr (PyTuple [PyBytes (l2_encode horus_v1_unencoded 22), PyInt 48])"
    by simp
  moreover have "horus_l2_decode_packet h horus_encoder
     (PyTuple [PyBytes (l2_encode horus_v1_unencoded 22), PyInt 48]) 22 = Inl TypeError"
    by (simp add: horus_l2_decode_packet_def)
  moreover have "reported_status
     (horus_l2_decode_packet h horus_encoder (PyBytes (l2_encode horus_v1_unencoded 22)) 22) = None"
    by (simp add: decode_packet_small)
  ultimately show "reported_status
     (horus_l2_decode_packet h horus_encoder (PyBytes (l2_encode horus_v1_unencoded 22)) 22) = None \<and>
   horus_l2_encode_packet h horus_encoder (PyBytes horus_v1_unencoded)
     = Inr (PyTuple [PyBytes (l2_encode horus_v1_unencoded 22), PyInt 48]) \<and>
   horus_l2_decode_packet h horus_encoder
     (PyTuple [PyBytes (l2_encode horus_v1_unencoded 22), PyInt 48]) 22 = Inl TypeError"
    by simp
qed

end
